theory Spec2Isabelle
  imports
    Main
    "HOL-Library.AList"
    "HOL-Library.Multiset"
    "HOL-Library.Char_ord"
    "HOL-Library.List_Lexorder"
    "HOL-Library.Product_Lexorder"
begin

section \<open>Python values used by the scanner\<close>

text \<open>
  A Python \<open>dict\<close> keeps insertion order: storing under a key that is already present
  replaces the value in place, storing under a new key appends the entry. That is
  \<^const>\<open>AList.update\<close> on an association list. A string is the list of its
  characters, each one a code point below 256; strings are compared as Python compares
  \<open>str\<close>, lexicographically by code point.
\<close>

type_synonym 'v pydict = "(string \<times> 'v) list"

text \<open>The value \<open>json.loads\<close> returns: \<open>None\<close>, a bool, a number (kept as its literal),
  a \<open>str\<close>, a \<open>list\<close> or a \<open>dict\<close>.\<close>

datatype pyjson =
    JNull
  | JBool bool
  | JNumber string
  | JString string
  | JArray "pyjson list"
  | JObject "(string \<times> pyjson) list"

text \<open>The exceptions that leave the functions of the scanner uncaught.\<close>

datatype pyexc = AttributeError | TypeError | KeyError | RecursionError | ValueError

text \<open>
  What \<open>json.loads\<close> does with a text: it returns a value, it raises
  \<open>json.JSONDecodeError\<close>, or it raises another exception (\<open>RecursionError\<close> on a text
  nested too deep, \<open>ValueError\<close> on an integer literal with too many digits).
\<close>

datatype loads_result = Parsed pyjson | JSONDecodeError | LoadsRaised pyexc

text \<open>What \<open>requests.get\<close> does for one URL: it returns a response, with its status code
  and body text, or it raises a \<open>requests.RequestException\<close> (timeout, connection error).\<close>

datatype transport =
    Response (status_code: int) (response_text: string)
  | RequestFailed

text \<open>\<open>str.startswith\<close>: the first \<open>len(prefix)\<close> characters of the key are the prefix.\<close>

definition startswith :: "string \<Rightarrow> string \<Rightarrow> bool" where
  "startswith key pre = (take (length pre) key = pre)"

text \<open>\<open>Response.raise_for_status\<close> raises \<open>HTTPError\<close>, a \<open>RequestException\<close>, for the
  client and server error codes 400 to 599, and returns for every other code.\<close>

definition raises_for_status :: "int \<Rightarrow> bool" where
  "raises_for_status sc = (400 \<le> sc \<and> sc < 600)"

text \<open>\<open>d.get(key, default)\<close>.\<close>

definition dict_get :: "'v pydict \<Rightarrow> string \<Rightarrow> 'v \<Rightarrow> 'v" where
  "dict_get d k dflt = (case map_of d k of None \<Rightarrow> dflt | Some v \<Rightarrow> v)"

text \<open>A dict display \<open>{k1: v1, ...}\<close> or \<open>{**a, **b}\<close>: the entries are stored one after
  the other into an empty dict.\<close>

definition dict_of :: "(string \<times> 'v) list \<Rightarrow> 'v pydict" where
  "dict_of kvs = fold (\<lambda>kv d. AList.update (fst kv) (snd kv) d) kvs []"

section \<open>ManifestProbe: \<open>check_dep_in_repo\<close>\<close>

text \<open>The loop \<open>for key in all_deps: if key.startswith(dep_prefix): return ...\<close>: whether
  it returns from inside.\<close>

primrec any_key_startswith :: "string \<Rightarrow> string list \<Rightarrow> bool" where
  "any_key_startswith dep_prefix [] = False"
| "any_key_startswith dep_prefix (key # keys) =
     (if startswith key dep_prefix then True else any_key_startswith dep_prefix keys)"

text \<open>
  Lines 53 to 59, once \<open>json.loads\<close> has returned \<open>data\<close>. \<open>data.get\<close> exists only on a
  dict (\<open>AttributeError\<close> otherwise), and \<open>{**deps, **dev_deps}\<close> needs two mappings
  (\<open>TypeError\<close> otherwise). Neither exception is a \<open>JSONDecodeError\<close> or a
  \<open>RequestException\<close>, so neither handler of the function catches it.
  The result is \<open>Inl\<close> an uncaught exception or \<open>Inr\<close> the returned value, which is
  a pair \<open>(repo, status)\<close> or Python's \<open>None\<close>.
\<close>

definition check_parsed ::
  "string \<Rightarrow> string \<Rightarrow> pyjson \<Rightarrow> pyexc + (string \<times> string) option" where
  "check_parsed repo dep_prefix data =
     (case data of
        JObject d \<Rightarrow>
          (case dict_get d ''dependencies'' (JObject []) of
             JObject deps \<Rightarrow>
               (case dict_get d ''devDependencies'' (JObject []) of
                  JObject dev_deps \<Rightarrow>
                    (if any_key_startswith dep_prefix (map fst (dict_of (deps @ dev_deps)))
                     then Inr (Some (repo, ''Has '' @ dep_prefix))
                     else Inr (Some (repo, ''No '' @ dep_prefix)))
                | _ \<Rightarrow> Inl TypeError)
           | _ \<Rightarrow> Inl TypeError)
      | _ \<Rightarrow> Inl AttributeError)"

text \<open>
  \<open>check_dep_in_repo(repo, dep_prefix, branch, headers, timeout)\<close>. The outcome of the one
  \<open>requests.get\<close> is the argument \<open>got\<close>; \<open>loads\<close> is \<open>json.loads\<close>. Of its exceptions
  only \<open>JSONDecodeError\<close> is handled; every other one leaves the function, as the
  exceptions of lines 53 to 59 do. A status code that is neither 404, nor an error code, nor 200
  falls off the end of the function, which then returns \<open>None\<close>.
\<close>

definition check_dep_in_repo ::
  "(string \<Rightarrow> loads_result) \<Rightarrow> string \<Rightarrow> string \<Rightarrow> transport
     \<Rightarrow> pyexc + (string \<times> string) option" where
  "check_dep_in_repo loads repo dep_prefix got =
     (case got of
        RequestFailed \<Rightarrow> Inr (Some (repo, ''Error''))
      | Response sc body \<Rightarrow>
          if sc = 404 then Inr (Some (repo, ''No package.json''))
          else if raises_for_status sc then Inr (Some (repo, ''Error''))
          else if sc = 200 then
            (case loads body of
               JSONDecodeError \<Rightarrow> Inr (Some (repo, ''Error''))
             | LoadsRaised e \<Rightarrow> Inl e
             | Parsed data \<Rightarrow> check_parsed repo dep_prefix data)
          else Inr None)"

text \<open>The manifest is asked for at this URL.\<close>

definition manifest_url :: "string \<Rightarrow> string \<Rightarrow> string" where
  "manifest_url repo branch =
     ''https://raw.githubusercontent.com/'' @ repo @ ''/'' @ branch @ ''/package.json''"

section \<open>Printing\<close>

abbreviation nl :: string where
  "nl \<equiv> [CHR 0x0A]"

abbreviation apos :: string where
  "apos \<equiv> [CHR 0x27]"

text \<open>\<open>print(s)\<close> sends \<open>s\<close> and a newline to the console; \<open>out.write(s)\<close> sends \<open>s\<close>
  to the file.\<close>

definition print_text :: "string \<Rightarrow> string" where
  "print_text s = s @ nl"

definition write_text :: "string \<Rightarrow> string" where
  "write_text s = s"

text \<open>The decimal digits of a page number, as an f-string formats it.\<close>

fun str_nat :: "nat \<Rightarrow> string" where
  "str_nat n =
     (if n < 10 then [char_of (48 + n)]
      else str_nat (n div 10) @ [char_of (48 + n mod 10)])"

section \<open>RepositoryLister: \<open>get_org_repos\<close>\<close>

text \<open>
  What one pass through the \<open>try\<close> block sees for a URL. \<open>PageFailed\<close>: \<open>requests.get\<close>,
  \<open>raise_for_status\<close> or \<open>response.json()\<close> raised, or the data cannot be iterated.
  \<open>PageData recs\<close>: the data holds the records \<open>recs\<close> (none when the data is falsy),
  each one \<open>Some\<close> of its \<open>full_name\<close>, or \<open>None\<close> when \<open>repo_data["full_name"]\<close> raises.
\<close>

datatype page = PageFailed | PageData "string option list"

definition list_url :: "string \<Rightarrow> nat \<Rightarrow> string" where
  "list_url org page =
     ''https://api.github.com/orgs/'' @ org @ ''/repos?per_page=100&page='' @ str_nat page"

text \<open>The loop \<open>for repo_data in data: repos.append(repo_data["full_name"])\<close>. The names
  appended before a record raises stay in \<open>repos\<close>; the flag says whether the loop ran to
  its end.\<close>

fun append_names :: "string list \<Rightarrow> string option list \<Rightarrow> string list \<times> bool" where
  "append_names repos [] = (repos, True)"
| "append_names repos (None # recs) = (repos, False)"
| "append_names repos (Some full_name # recs) = append_names (repos @ [full_name]) recs"

text \<open>
  The \<open>while True\<close> loop, which need not end: the result is \<open>None\<close> when it runs forever.
  \<open>fetched\<close> records the URLs requested so far, in order; the function returns it beside
  \<open>repos\<close>. The handler \<open>except Exception\<close> turns every failure into a \<open>break\<close>.
\<close>

partial_function (option) get_org_repos_loop ::
  "(string \<Rightarrow> page) \<Rightarrow> string \<Rightarrow> string list \<Rightarrow> nat \<Rightarrow> string list
     \<Rightarrow> (string list \<times> string list) option" where
  "get_org_repos_loop http org repos page fetched =
     (case http (list_url org page) of
        PageFailed \<Rightarrow> Some (repos, fetched @ [list_url org page])
      | PageData data \<Rightarrow>
          if data = [] then Some (repos, fetched @ [list_url org page])
          else if snd (append_names repos data)
          then get_org_repos_loop http org (fst (append_names repos data)) (page + 1)
                 (fetched @ [list_url org page])
          else Some (fst (append_names repos data), fetched @ [list_url org page]))"

declare get_org_repos_loop.simps [code]

definition get_org_repos ::
  "(string \<Rightarrow> page) \<Rightarrow> string \<Rightarrow> (string list \<times> string list) option" where
  "get_org_repos http org = get_org_repos_loop http org [] 1 []"

section \<open>ScanCoordinator and ReportAggregator: \<open>main\<close>\<close>

text \<open>\<open>str.strip()\<close> removes the leading and trailing whitespace. Of the code points
  below 256, \<open>str.isspace\<close> holds for 9 to 13, 28 to 32, 133 (U+0085) and 160 (U+00A0).\<close>

definition isspace :: "char \<Rightarrow> bool" where
  "isspace c = ((9 \<le> (of_char c :: nat) \<and> (of_char c :: nat) \<le> 13)
              \<or> (28 \<le> (of_char c :: nat) \<and> (of_char c :: nat) \<le> 32)
              \<or> (of_char c :: nat) = 133
              \<or> (of_char c :: nat) = 160)"

definition strip :: "string \<Rightarrow> string" where
  "strip s = rev (dropWhile isspace (rev (dropWhile isspace s)))"

text \<open>\<open>[line.strip() for line in f if line.strip()]\<close>.\<close>

definition read_orgs :: "string list \<Rightarrow> string list" where
  "read_orgs lines = filter (\<lambda>s. s \<noteq> []) (map strip lines)"

text \<open>
  The loop over \<open>as_completed(future_to_repo)\<close>: \<open>completed\<close> lists the repositories in the
  order their futures complete. \<open>future.result()\<close> re-raises what the probe raised, and
  unpacking \<open>None\<close> into \<open>repo, status\<close> raises \<open>TypeError\<close>; otherwise
  \<open>org_results[repo] = status\<close>.
\<close>

fun collect_results ::
  "(string \<Rightarrow> pyexc + (string \<times> string) option) \<Rightarrow> string list \<Rightarrow> string pydict
     \<Rightarrow> pyexc + string pydict" where
  "collect_results probe [] org_results = Inr org_results"
| "collect_results probe (r # completed) org_results =
     (case probe r of
        Inl e \<Rightarrow> Inl e
      | Inr None \<Rightarrow> Inl TypeError
      | Inr (Some (repo, status)) \<Rightarrow>
          collect_results probe completed (AList.update repo status org_results))"

text \<open>
  The loop \<open>for org in orgs\<close>. \<open>lister org\<close> is what \<open>get_org_repos\<close> returns for the
  organization (\<open>None\<close> when it does not return), \<open>probe\<close> is \<open>check_dep_in_repo\<close> on a
  repository, and \<open>sched org repos\<close> is the order in which the futures of \<open>repos\<close>
  complete. An organization with no repositories is skipped by \<open>continue\<close>.
\<close>

fun scan_orgs ::
  "(string \<Rightarrow> string list option) \<Rightarrow> (string \<Rightarrow> pyexc + (string \<times> string) option)
     \<Rightarrow> (string \<Rightarrow> string list \<Rightarrow> string list) \<Rightarrow> string list
     \<Rightarrow> (string pydict) pydict \<Rightarrow> (pyexc + (string pydict) pydict) option" where
  "scan_orgs lister probe sched [] all_results = Some (Inr all_results)"
| "scan_orgs lister probe sched (org # orgs) all_results =
     (case lister org of
        None \<Rightarrow> None
      | Some repos \<Rightarrow>
          if repos = [] then scan_orgs lister probe sched orgs all_results
          else
            (case collect_results probe (sched org repos) [] of
               Inl e \<Rightarrow> Some (Inl e)
             | Inr org_results \<Rightarrow>
                 scan_orgs lister probe sched orgs (AList.update org org_results all_results)))"

text \<open>The dict display \<open>status_groups\<close> of lines 125 to 130 and 145 to 150.\<close>

definition status_groups :: "string \<Rightarrow> (string list) pydict" where
  "status_groups dep_prefix =
     dict_of [(''Has '' @ dep_prefix, []), (''No '' @ dep_prefix, []),
              (''No package.json'', []), (''Error'', [])]"

text \<open>\<open>for repo, status in sorted(results.items()): status_groups[status].append(repo)\<close>,
  given the sorted items; a status that is no key raises \<open>KeyError\<close>.\<close>

fun group_repos ::
  "(string \<times> string) list \<Rightarrow> (string list) pydict \<Rightarrow> pyexc + (string list) pydict" where
  "group_repos [] groups = Inr groups"
| "group_repos ((repo, status) # items) groups =
     (case map_of groups status of
        None \<Rightarrow> Inl KeyError
      | Some repos \<Rightarrow> group_repos items (AList.update status (repos @ [repo]) groups))"

definition group_org :: "string \<Rightarrow> string pydict \<Rightarrow> pyexc + (string list) pydict" where
  "group_org dep_prefix results = group_repos (sort results) (status_groups dep_prefix)"

text \<open>Lines 134 to 138: the console text of the status groups of one organization.\<close>

fun console_groups :: "(string list) pydict \<Rightarrow> string" where
  "console_groups [] = []"
| "console_groups ((status, repos) # groups) =
     (if repos \<noteq> []
      then print_text (''  '' @ status @ '':'')
           @ concat (map (\<lambda>repo. print_text (''    '' @ repo)) (sort repos))
      else [])
     @ console_groups groups"

text \<open>Lines 154 to 158: the same groups written to the file.\<close>

fun file_groups :: "(string list) pydict \<Rightarrow> string" where
  "file_groups [] = []"
| "file_groups ((status, repos) # groups) =
     (if repos \<noteq> []
      then write_text (''  '' @ status @ '':'' @ nl)
           @ concat (map (\<lambda>repo. write_text (''    '' @ repo @ nl)) (sort repos))
      else [])
     @ file_groups groups"

text \<open>Lines 123 to 138: the loop over \<open>all_results.items()\<close> on the console. The text
  printed so far is lost to the model when a \<open>KeyError\<close> ends the program.\<close>

fun console_orgs :: "string \<Rightarrow> (string pydict) pydict \<Rightarrow> pyexc + string" where
  "console_orgs dep_prefix [] = Inr []"
| "console_orgs dep_prefix ((org, results) # rest) =
     (case group_org dep_prefix results of
        Inl e \<Rightarrow> Inl e
      | Inr groups \<Rightarrow>
          (case console_orgs dep_prefix rest of
             Inl e \<Rightarrow> Inl e
           | Inr t \<Rightarrow>
               Inr (print_text (nl @ ''Organization: '' @ org) @ console_groups groups @ t)))"

text \<open>Lines 143 to 158: the same loop into the file.\<close>

fun file_orgs :: "string \<Rightarrow> (string pydict) pydict \<Rightarrow> pyexc + string" where
  "file_orgs dep_prefix [] = Inr []"
| "file_orgs dep_prefix ((org, results) # rest) =
     (case group_org dep_prefix results of
        Inl e \<Rightarrow> Inl e
      | Inr groups \<Rightarrow>
          (case file_orgs dep_prefix rest of
             Inl e \<Rightarrow> Inl e
           | Inr t \<Rightarrow>
               Inr (write_text (nl @ ''Organization: '' @ org @ nl) @ file_groups groups @ t)))"

text \<open>Lines 122 to 138: the final report on the console.\<close>

definition console_report :: "string \<Rightarrow> (string pydict) pydict \<Rightarrow> pyexc + string" where
  "console_report dep_prefix all_results =
     (case console_orgs dep_prefix all_results of
        Inl e \<Rightarrow> Inl e
      | Inr t \<Rightarrow>
          Inr (print_text (nl @ ''Final Results for '' @ apos @ dep_prefix @ apos
                           @ '' (grouped by organization and status):'') @ t))"

text \<open>Lines 141 to 158: the content of \<open>output.txt\<close>.\<close>

definition file_report :: "string \<Rightarrow> (string pydict) pydict \<Rightarrow> pyexc + string" where
  "file_report dep_prefix all_results =
     (case file_orgs dep_prefix all_results of
        Inl e \<Rightarrow> Inl e
      | Inr t \<Rightarrow>
          Inr (write_text (''Final Results for '' @ apos @ dep_prefix @ apos
                           @ '' (grouped by organization and status):'' @ nl) @ t))"

text \<open>
  How a run ends: \<open>sys.exit(1)\<close> after a message, an uncaught exception, or the end of
  \<open>main\<close>, with the final report printed on the console and the content of \<open>output.txt\<close>.
\<close>

datatype outcome = Exit1 string | Crashed pyexc | Finished string string

text \<open>
  Lines 92 to 159 of \<open>main\<close>, which run once \<open>orgs\<close> is read: the scan of the
  organizations, the final report on the console, then \<open>output.txt\<close>. \<open>http_list\<close>
  answers the listing requests and \<open>http_get\<close> the manifest requests; \<open>sched\<close> is the
  completion order of the futures. The result is \<open>None\<close> when a listing never ends.
\<close>

definition scan_and_report ::
  "(string \<Rightarrow> loads_result) \<Rightarrow> (string \<Rightarrow> page) \<Rightarrow> (string \<Rightarrow> transport)
     \<Rightarrow> (string \<Rightarrow> string list \<Rightarrow> string list)
     \<Rightarrow> string list \<Rightarrow> string \<Rightarrow> string \<Rightarrow> outcome option" where
  "scan_and_report loads http_list http_get sched orgs dep_prefix branch =
     (case scan_orgs (\<lambda>org. map_option fst (get_org_repos http_list org))
             (\<lambda>repo. check_dep_in_repo loads repo dep_prefix
                        (http_get (manifest_url repo branch)))
             sched orgs [] of
        None \<Rightarrow> None
      | Some (Inl e) \<Rightarrow> Some (Crashed e)
      | Some (Inr all_results) \<Rightarrow>
          (case console_report dep_prefix all_results of
             Inl e \<Rightarrow> Some (Crashed e)
           | Inr console \<Rightarrow>
               (case file_report dep_prefix all_results of
                  Inl e \<Rightarrow> Some (Crashed e)
                | Inr file \<Rightarrow> Some (Finished console file))))"

text \<open>
  \<open>main\<close>. The file \<open>txt_file\<close> is absent (\<open>content = None\<close>) or holds \<open>lines\<close>. Both exits
  come before the first request.
\<close>

definition main ::
  "(string \<Rightarrow> loads_result) \<Rightarrow> (string \<Rightarrow> page) \<Rightarrow> (string \<Rightarrow> transport)
     \<Rightarrow> (string \<Rightarrow> string list \<Rightarrow> string list)
     \<Rightarrow> string \<Rightarrow> string list option \<Rightarrow> string \<Rightarrow> string \<Rightarrow> outcome option" where
  "main loads http_list http_get sched txt_file content dep_prefix branch =
     (case content of
        None \<Rightarrow> Some (Exit1 (''File not found: '' @ txt_file))
      | Some lines \<Rightarrow>
          if read_orgs lines = [] then Some (Exit1 ''No organizations found in the file.'')
          else scan_and_report loads http_list http_get sched (read_orgs lines)
                 dep_prefix branch)"

text \<open>
  Measures on the status groups of one organization: the number of repository lines in
  all groups, and the number of lines that name one repository.
\<close>

definition total_repos :: "(string list) pydict \<Rightarrow> nat" where
  "total_repos groups = sum_list (map (\<lambda>g. length (snd g)) groups)"

definition occurrences :: "string \<Rightarrow> (string list) pydict \<Rightarrow> nat" where
  "occurrences repo groups = sum_list (map (\<lambda>g. count_list (snd g) repo) groups)"

text \<open>The status a probe returned for a repository, when it returned a pair.\<close>

definition status_of ::
  "(string \<Rightarrow> pyexc + (string \<times> string) option) \<Rightarrow> string \<Rightarrow> string option" where
  "status_of probe r =
     (case probe r of Inr (Some (repo, status)) \<Rightarrow> Some status | _ \<Rightarrow> None)"

section \<open>The report as the specification words it\<close>

text \<open>
  The specification of the aggregator: for each organization, its repositories are
  partitioned into the fixed outcome categories, the names are sorted lexicographically
  within each category, and the organizations keep their insertion order. The layout
  (header, organization heading, one heading for each category that is not empty, one
  line for each repository) is the one of the program.

  \<open>insertion_order\<close> lists the distinct elements of a list in the order in which they
  first appear; a list without repetitions is its own insertion order.
\<close>

definition insertion_order :: "string list \<Rightarrow> string list" where
  "insertion_order xs = fold (\<lambda>x seen. if x \<in> set seen then seen else seen @ [x]) xs []"

text \<open>The categories with, for each, the sorted names of the repositories of \<open>repos\<close> whose
  status it is; \<open>status\<close> gives the status of a repository.\<close>

definition spec_groups ::
  "string \<Rightarrow> (string \<Rightarrow> string option) \<Rightarrow> string list \<Rightarrow> (string list) pydict" where
  "spec_groups dep_prefix status repos =
     map (\<lambda>category.
            (category, sort (remdups (filter (\<lambda>repo. status repo = Some category) repos))))
         (insertion_order
            [''Has '' @ dep_prefix, ''No '' @ dep_prefix, ''No package.json'', ''Error''])"

definition spec_section :: "string \<Rightarrow> (string list) pydict \<Rightarrow> string" where
  "spec_section org groups =
     nl @ ''Organization: '' @ org @ nl
     @ concat (map (\<lambda>g. if snd g = [] then []
                         else ''  '' @ fst g @ '':'' @ nl
                              @ concat (map (\<lambda>repo. ''    '' @ repo @ nl) (snd g)))
                   groups)"

text \<open>The whole report: \<open>listing org\<close> are the repositories found for an organization, and
  an organization without repositories has no section.\<close>

definition spec_report ::
  "string \<Rightarrow> (string \<Rightarrow> string option) \<Rightarrow> (string \<Rightarrow> string list) \<Rightarrow> string list
     \<Rightarrow> string" where
  "spec_report dep_prefix status listing orgs =
     ''Final Results for '' @ apos @ dep_prefix @ apos
     @ '' (grouped by organization and status):'' @ nl
     @ concat (map (\<lambda>org. spec_section org (spec_groups dep_prefix status (listing org)))
                   (insertion_order (filter (\<lambda>org. listing org \<noteq> []) orgs)))"

text \<open>
  Remote ends and completion orders for the concrete runs below: \<open>remote table dflt\<close>
  answers a URL of \<open>table\<close> with its entry and every other URL with \<open>dflt\<close>;
  used for \<open>json.loads\<close>, \<open>remote table JSONDecodeError\<close> is \<open>json.loads\<close> on the
  bodies of \<open>table\<close>, none of the other bodies of the run being JSON;
  \<open>in_order\<close> completes the futures in the order of submission, \<open>last_first\<close> in
  the opposite order.
\<close>

definition remote :: "'a pydict \<Rightarrow> 'a \<Rightarrow> string \<Rightarrow> 'a" where
  "remote table dflt url = dict_get table url dflt"

definition in_order :: "string \<Rightarrow> string list \<Rightarrow> string list" where
  "in_order org repos = repos"

definition last_first :: "string \<Rightarrow> string list \<Rightarrow> string list" where
  "last_first org repos = rev repos"

declare str_nat.simps [simp del]

section \<open>Properties of the probe\<close>

lemma keys_update: "fst ` set (AList.update k v d) = insert k (fst ` set d)"
  by (induction d) auto

lemma keys_fold_update:
  "fst ` set (fold (\<lambda>kv d. AList.update (fst kv) (snd kv) d) kvs d) = fst ` set kvs \<union> fst ` set d"
  by (induction kvs arbitrary: d) (auto simp: keys_update)

lemma keys_dict_of: "fst ` set (dict_of kvs) = fst ` set kvs"
  by (simp add: dict_of_def keys_fold_update)

lemma any_key_startswith_iff:
  "any_key_startswith dep_prefix keys \<longleftrightarrow> (\<exists>key \<in> set keys. startswith key dep_prefix)"
  by (induction keys) auto

text \<open>
  C1 (the probe is a total function into the four outcomes). The code does not do this.
  A manifest answered with status 200 and the body \<open>[]\<close>, which is JSON but no object,
  raises \<open>AttributeError\<close> out of the function, and a response with status 204 makes
  the function return \<open>None\<close> instead of a pair.
\<close>

theorem check_dep_in_repo_not_total:
  "check_dep_in_repo (remote [(''[]'', Parsed (JArray []))] JSONDecodeError)
       ''acme/a'' ''ag-grid'' (Response 200 ''[]'')
     = Inl AttributeError
   \<and> check_dep_in_repo (remote [(''[]'', Parsed (JArray []))] JSONDecodeError)
       ''acme/a'' ''ag-grid'' (Response 204 [])
     = Inr None"
  by (simp add: check_dep_in_repo_def check_parsed_def raises_for_status_def remote_def
        dict_get_def)

text \<open>
  C3: a response with status 404 is classified \<open>No package.json\<close> whatever its body is,
  although 404 is one of the codes for which \<open>raise_for_status\<close> raises: the test for
  404 comes first.
\<close>

theorem status_404_is_no_manifest:
  "check_dep_in_repo loads repo dep_prefix (Response 404 body)
     = Inr (Some (repo, ''No package.json''))
   \<and> raises_for_status 404"
  by (simp add: check_dep_in_repo_def raises_for_status_def)

text \<open>A body that \<open>json.loads\<close> rejects with \<open>JSONDecodeError\<close> is classified \<open>Error\<close>,
  which is not the status \<open>No <prefix>\<close> of a missing dependency.\<close>

lemma json_decode_error_is_error:
  "loads body = JSONDecodeError \<Longrightarrow>
   check_dep_in_repo loads repo dep_prefix (Response 200 body) = Inr (Some (repo, ''Error''))
   \<and> ''Error'' \<noteq> ''No '' @ dep_prefix"
  by (simp add: check_dep_in_repo_def raises_for_status_def)

text \<open>
  C4 (a body with status 200 that fails to parse as JSON is classified \<open>Error\<close>). The
  code does not do this for every such body: a body of 1000 opening brackets is no JSON,
  \<open>json.loads\<close> gives up on it with \<open>RecursionError\<close>, which is no \<open>JSONDecodeError\<close>,
  and the exception leaves the function.
\<close>

theorem unparseable_body_not_classified:
  "check_dep_in_repo
     (remote [(replicate 1000 CHR ''['', LoadsRaised RecursionError)] JSONDecodeError)
     ''acme/a'' ''ag-grid'' (Response 200 (replicate 1000 CHR ''[''))
   = Inl RecursionError"
  by (simp add: check_dep_in_repo_def raises_for_status_def remote_def dict_get_def)

lemma startswith_iff: "startswith key pre \<longleftrightarrow> (\<exists>rest. key = pre @ rest)"
  unfolding startswith_def
  by (metis append_eq_conv_conj append_take_drop_id)

text \<open>
  C5 (every successfully parsed body is classified by the prefix test). The code does
  not do this: a body that parses but whose \<open>dependencies\<close> entry is \<open>null\<close> raises
  \<open>TypeError\<close> at \<open>{**deps, **dev_deps}\<close>, and the exception leaves the function,
  although a key of \<open>devDependencies\<close> starts with the prefix.
\<close>

theorem parsed_body_not_classified:
  \<open>check_dep_in_repo
     (remote [(''{"dependencies": null, "devDependencies": {"ag-grid-community": "1.0.0"}}'',
               Parsed (JObject [(''dependencies'', JNull),
                                (''devDependencies'',
                                 JObject [(''ag-grid-community'', JString ''1.0.0'')])]))]
        JSONDecodeError)
     ''acme/a'' ''ag-grid''
     (Response 200 ''{"dependencies": null, "devDependencies": {"ag-grid-community": "1.0.0"}}'')
   = Inl TypeError
   \<and> startswith ''ag-grid-community'' ''ag-grid''\<close>
  by (simp add: check_dep_in_repo_def check_parsed_def raises_for_status_def dict_get_def
        startswith_def remote_def)

text \<open>
  Where the code does classify: when the body parses to an object whose \<open>dependencies\<close> and
  \<open>devDependencies\<close> entries are objects where they are present, the status is
  \<open>Has <prefix>\<close> if some key of one of the two starts with the prefix, and
  \<open>No <prefix>\<close> otherwise; the values play no part. The test is that the key is the
  prefix followed by anything, character for character.
\<close>

lemma manifest_classified_by_prefix:
  assumes "loads body = Parsed (JObject d)"
    and "dict_get d ''dependencies'' (JObject []) = JObject deps"
    and "dict_get d ''devDependencies'' (JObject []) = JObject dev_deps"
  shows "check_dep_in_repo loads repo dep_prefix (Response 200 body)
           = Inr (Some (repo,
                if (\<exists>key \<in> fst ` set deps \<union> fst ` set dev_deps. startswith key dep_prefix)
                then ''Has '' @ dep_prefix else ''No '' @ dep_prefix))
         \<and> (\<forall>key. startswith key dep_prefix \<longleftrightarrow> (\<exists>rest. key = dep_prefix @ rest))
         \<and> startswith ''ag-grid-community'' ''ag-grid''
         \<and> \<not> startswith ''AG-GRID'' ''ag-grid''
         \<and> startswith ''ag-gridx'' ''ag-grid''"
proof -
  have "check_dep_in_repo loads repo dep_prefix (Response 200 body)
          = check_parsed repo dep_prefix (JObject d)"
    using assms(1) by (simp add: check_dep_in_repo_def raises_for_status_def)
  also have "\<dots> = Inr (Some (repo,
                if (\<exists>key \<in> fst ` set deps \<union> fst ` set dev_deps. startswith key dep_prefix)
                then ''Has '' @ dep_prefix else ''No '' @ dep_prefix))"
  proof -
    have keys: "any_key_startswith dep_prefix (map fst (dict_of (deps @ dev_deps)))
        \<longleftrightarrow> (\<exists>key \<in> fst ` set deps \<union> fst ` set dev_deps. startswith key dep_prefix)"
      by (simp only: any_key_startswith_iff list.set_map keys_dict_of set_append image_Un)
    show ?thesis
      using assms(2,3) by (simp add: check_parsed_def keys)
  qed
  finally have res: "check_dep_in_repo loads repo dep_prefix (Response 200 body)
           = Inr (Some (repo,
                if (\<exists>key \<in> fst ` set deps \<union> fst ` set dev_deps. startswith key dep_prefix)
                then ''Has '' @ dep_prefix else ''No '' @ dep_prefix))" .
  have ex: "startswith ''ag-grid-community'' ''ag-grid''" "\<not> startswith ''AG-GRID'' ''ag-grid''"
    "startswith ''ag-gridx'' ''ag-grid''"
    by (simp_all add: startswith_def)
  from res ex startswith_iff show ?thesis by blast
qed

lemma manifest_classified_by_prefix_example:
  \<open>check_dep_in_repo
     (remote [(''{"dependencies": {"ag-grid-community": "1.0.0"}}'',
               Parsed (JObject [(''dependencies'',
                                 JObject [(''ag-grid-community'', JString ''1.0.0'')])]))]
        JSONDecodeError)
     ''acme/a'' ''ag-grid''
     (Response 200 ''{"dependencies": {"ag-grid-community": "1.0.0"}}'')
   = Inr (Some (''acme/a'', ''Has ag-grid''))\<close>
proof -
  let ?d = \<open>[(''dependencies'', JObject [(''ag-grid-community'', JString ''1.0.0'')])]\<close>
  let ?body = \<open>''{"dependencies": {"ag-grid-community": "1.0.0"}}''\<close>
  have h1: "remote [(?body, Parsed (JObject ?d))] JSONDecodeError ?body = Parsed (JObject ?d)"
    by (simp add: remote_def dict_get_def)
  have h2: "dict_get ?d ''dependencies'' (JObject [])
              = JObject [(''ag-grid-community'', JString ''1.0.0'')]"
    by (simp add: dict_get_def)
  have h3: "dict_get ?d ''devDependencies'' (JObject []) = JObject []"
    by (simp add: dict_get_def)
  have h4: "\<exists>key \<in> fst ` set [(''ag-grid-community'', JString ''1.0.0'')] \<union> fst ` set [].
              startswith key ''ag-grid''"
    by (simp add: startswith_def)
  from manifest_classified_by_prefix
         [where loads = "remote [(?body, Parsed (JObject ?d))] JSONDecodeError" and body = ?body,
          OF h1 h2 h3,
          of "''acme/a''" "''ag-grid''", THEN conjunct1]
  show ?thesis
    by (simp only: if_P [OF h4] append.simps)
qed

section \<open>Properties of the lister\<close>

lemma append_names_Some: "append_names repos (map Some names) = (repos @ names, True)"
  by (induction names arbitrary: repos) simp_all

lemma get_org_repos_loop_pages:
  assumes "\<forall>i < length pages.
             http (list_url org (p + i)) = PageData (map Some (pages ! i)) \<and> pages ! i \<noteq> []"
    and "http (list_url org (p + length pages)) = PageData []"
  shows "get_org_repos_loop http org repos p fetched
           = Some (repos @ concat pages,
                   fetched @ map (list_url org) [p ..< Suc (p + length pages)])"
  using assms
proof (induction pages arbitrary: repos p fetched)
  case Nil
  then show ?case by (subst get_org_repos_loop.simps) simp
next
  case (Cons names pages)
  from Cons.prems(1) have h0: "http (list_url org p) = PageData (map Some names)"
    and ne: "names \<noteq> []"
    by auto
  have rest: "\<forall>i < length pages.
      http (list_url org (Suc p + i)) = PageData (map Some (pages ! i)) \<and> pages ! i \<noteq> []"
  proof (intro allI impI)
    fix i assume "i < length pages"
    then have "Suc i < length (names # pages)" by simp
    with Cons.prems(1)
    have "http (list_url org (p + Suc i)) = PageData (map Some ((names # pages) ! Suc i))
          \<and> (names # pages) ! Suc i \<noteq> []"
      by blast
    then show "http (list_url org (Suc p + i)) = PageData (map Some (pages ! i))
               \<and> pages ! i \<noteq> []"
      by simp
  qed
  from Cons.prems(2) have last: "http (list_url org (Suc p + length pages)) = PageData []"
    by simp
  have step: "get_org_repos_loop http org repos p fetched
      = get_org_repos_loop http org (repos @ names) (Suc p) (fetched @ [list_url org p])"
    by (subst get_org_repos_loop.simps) (simp add: h0 ne append_names_Some)
  have up: "[p ..< Suc (p + length (names # pages))]
              = p # [Suc p ..< Suc (Suc p + length pages)]"
    by (simp add: upt_rec)
  show ?case
    unfolding step Cons.IH [OF rest last] up by simp
qed

lemma list_url_acme:
  "list_url ''acme'' 1 = ''https://api.github.com/orgs/acme/repos?per_page=100&page=1''"
  "list_url ''acme'' 2 = ''https://api.github.com/orgs/acme/repos?per_page=100&page=2''"
  "list_url ''acme'' 3 = ''https://api.github.com/orgs/acme/repos?per_page=100&page=3''"
  "list_url ''acme'' 4 = ''https://api.github.com/orgs/acme/repos?per_page=100&page=4''"
  by code_simp+

text \<open>
  C6: when the listing answers the pages 1 to \<open>n\<close> with non-empty lists of records and the
  page \<open>n + 1\<close> with an empty list, \<open>get_org_repos\<close> returns; it has requested exactly
  the URLs of the pages 1 to \<open>n + 1\<close>, each with \<open>per_page=100\<close>, in this order, and it
  returns the full names of the pages 1 to \<open>n\<close> in order.
\<close>

theorem get_org_repos_stops_at_empty_page:
  assumes "\<forall>i < length pages.
             http (list_url org (Suc i)) = PageData (map Some (pages ! i)) \<and> pages ! i \<noteq> []"
    and "http (list_url org (Suc (length pages))) = PageData []"
  shows "get_org_repos http org
           = Some (concat pages, map (list_url org) [1 ..< length pages + 2])"
  using get_org_repos_loop_pages [of pages http org 1 "[]" "[]"] assms
  by (simp add: get_org_repos_def)

text \<open>Pages of sizes 100, 100, 37 and 0: four requests, 237 full names.\<close>

theorem get_org_repos_stops_at_empty_page_witness:
  "get_org_repos
     (remote
        [(''https://api.github.com/orgs/acme/repos?per_page=100&page=1'',
          PageData (map Some (replicate 100 ''acme/r''))),
         (''https://api.github.com/orgs/acme/repos?per_page=100&page=2'',
          PageData (map Some (replicate 100 ''acme/r''))),
         (''https://api.github.com/orgs/acme/repos?per_page=100&page=3'',
          PageData (map Some (replicate 37 ''acme/r''))),
         (''https://api.github.com/orgs/acme/repos?per_page=100&page=4'', PageData [])]
        PageFailed)
     ''acme''
   = Some (replicate 237 ''acme/r'',
           [''https://api.github.com/orgs/acme/repos?per_page=100&page=1'',
            ''https://api.github.com/orgs/acme/repos?per_page=100&page=2'',
            ''https://api.github.com/orgs/acme/repos?per_page=100&page=3'',
            ''https://api.github.com/orgs/acme/repos?per_page=100&page=4''])"
proof -
  let ?pages = "[replicate 100 ''acme/r'', replicate 100 ''acme/r'', replicate 37 ''acme/r'']"
  let ?http = "remote
        [(''https://api.github.com/orgs/acme/repos?per_page=100&page=1'',
          PageData (map Some (replicate 100 ''acme/r''))),
         (''https://api.github.com/orgs/acme/repos?per_page=100&page=2'',
          PageData (map Some (replicate 100 ''acme/r''))),
         (''https://api.github.com/orgs/acme/repos?per_page=100&page=3'',
          PageData (map Some (replicate 37 ''acme/r''))),
         (''https://api.github.com/orgs/acme/repos?per_page=100&page=4'', PageData [])]
        PageFailed"
  have three: "\<And>i. i < 3 \<Longrightarrow> i = 0 \<or> i = 1 \<or> i = (2::nat)" by arith
  have h1: "\<forall>i < length ?pages.
      ?http (list_url ''acme'' (Suc i)) = PageData (map Some (?pages ! i)) \<and> ?pages ! i \<noteq> []"
  proof (intro allI impI)
    fix i assume "i < length ?pages"
    then have "i = 0 \<or> i = 1 \<or> i = 2" using three by simp
    then show "?http (list_url ''acme'' (Suc i)) = PageData (map Some (?pages ! i))
               \<and> ?pages ! i \<noteq> []"
      using list_url_acme
      by (auto simp: remote_def dict_get_def numeral_2_eq_2 numeral_3_eq_3)
  qed
  have h2: "?http (list_url ''acme'' (Suc (length ?pages))) = PageData []"
    using list_url_acme(4) by (simp add: remote_def dict_get_def eval_nat_numeral)
  have cc: "concat ?pages = replicate 237 ''acme/r''"
    by (simp add: replicate_add [symmetric])
  have uu: "map (list_url ''acme'') [1 ..< length ?pages + 2]
              = [list_url ''acme'' 1, list_url ''acme'' 2, list_url ''acme'' 3, list_url ''acme'' 4]"
    by (simp add: upt_rec eval_nat_numeral)
  show ?thesis
    using get_org_repos_stops_at_empty_page [OF h1 h2] unfolding cc uu list_url_acme .
qed

section \<open>Properties of the report\<close>

lemma console_groups_eq_file_groups: "console_groups groups = file_groups groups"
  by (induction groups rule: console_groups.induct) (simp_all add: print_text_def write_text_def)

lemma console_orgs_eq_file_orgs: "console_orgs dep_prefix all_results = file_orgs dep_prefix all_results"
  by (induction dep_prefix all_results rule: console_orgs.induct)
     (simp_all add: print_text_def write_text_def console_groups_eq_file_groups split: sum.splits)

text \<open>
  C7 (the console rendering and \<open>output.txt\<close> are byte-identical). As stated this fails:
  with no organization in the results the console shows an empty line before the header
  and the file does not.
\<close>

theorem console_differs_from_file:
  "console_report ''ag-grid'' [] \<noteq> file_report ''ag-grid'' []"
  by (simp add: console_report_def file_report_def print_text_def write_text_def)

text \<open>
  C7, amended: the final report on the console is one newline followed by exactly the
  content of \<open>output.txt\<close>; when grouping raises, both raise the same exception.
\<close>

theorem console_is_newline_then_file:
  "console_report dep_prefix all_results =
     (case file_report dep_prefix all_results of Inl e \<Rightarrow> Inl e | Inr t \<Rightarrow> Inr (nl @ t))"
  by (simp add: console_report_def file_report_def console_orgs_eq_file_orgs
        print_text_def write_text_def split: sum.splits)

section \<open>Properties of the scan\<close>

lemma check_parsed_pair:
  "check_parsed repo dep_prefix data = Inr (Some (r, s)) \<Longrightarrow>
     r = repo \<and> (s = ''Has '' @ dep_prefix \<or> s = ''No '' @ dep_prefix)"
  by (auto simp: check_parsed_def split: pyjson.splits if_splits)

lemma check_parsed_not_None: "check_parsed repo dep_prefix data \<noteq> Inr None"
  by (auto simp: check_parsed_def split: pyjson.splits if_splits)

lemma check_dep_in_repo_pair:
  "check_dep_in_repo loads repo dep_prefix got = Inr (Some (r, s)) \<Longrightarrow>
     r = repo \<and> s \<in> {''Has '' @ dep_prefix, ''No '' @ dep_prefix, ''No package.json'', ''Error''}"
  by (auto simp: check_dep_in_repo_def split: transport.splits if_splits loads_result.splits
           dest: check_parsed_pair)

lemma status_of_Some: "status_of probe r = Some s \<longleftrightarrow> (\<exists>repo. probe r = Inr (Some (repo, s)))"
  by (auto simp: status_of_def split: sum.splits option.splits)

lemma collect_results_map_of:
  assumes "collect_results probe c d = Inr d'"
    and "\<forall>r repo s. probe r = Inr (Some (repo, s)) \<longrightarrow> repo = r"
  shows "map_of d' = (\<lambda>k. if k \<in> set c then status_of probe k else map_of d k)
         \<and> (\<forall>r \<in> set c. status_of probe r \<noteq> None)"
  using assms(1)
proof (induction c arbitrary: d)
  case Nil
  then show ?case by simp
next
  case (Cons r c)
  from Cons.prems obtain repo s where p: "probe r = Inr (Some (repo, s))"
    and rest: "collect_results probe c (AList.update repo s d) = Inr d'"
    by (auto split: sum.splits option.splits)
  from assms(2) p have [simp]: "repo = r" by blast
  have st: "status_of probe r = Some s" using p by (simp add: status_of_def)
  from Cons.IH [OF rest] show ?case
    by (auto simp: update_conv' st fun_eq_iff)
qed

lemma collect_results_distinct:
  "collect_results probe c d = Inr d' \<Longrightarrow> distinct (map fst d) \<Longrightarrow> distinct (map fst d')"
proof (induction c arbitrary: d)
  case Nil
  then show ?case by simp
next
  case (Cons r c)
  then show ?case
    by (auto split: sum.splits option.splits simp: distinct_update)
qed

lemma collect_results_succeeds:
  "\<forall>r \<in> set c. status_of probe r \<noteq> None \<Longrightarrow> \<exists>d'. collect_results probe c d = Inr d'"
proof (induction c arbitrary: d)
  case Nil
  then show ?case by simp
next
  case (Cons r c)
  then obtain s where "status_of probe r = Some s" by auto
  then obtain repo where "probe r = Inr (Some (repo, s))" by (auto simp: status_of_Some)
  with Cons show ?case by simp
qed

lemma collect_results_keys:
  assumes "collect_results probe c [] = Inr d'"
    and "\<forall>r repo s. probe r = Inr (Some (repo, s)) \<longrightarrow> repo = r"
  shows "fst ` set d' = set c"
proof -
  from collect_results_map_of [OF assms(1) assms(2)]
  have m: "map_of d' = (\<lambda>k. if k \<in> set c then status_of probe k else None)"
    and ok: "\<forall>r \<in> set c. status_of probe r \<noteq> None" by auto
  have "dom (map_of d') = set c" unfolding m using ok by (auto simp: dom_def)
  then show ?thesis by (simp add: dom_map_of_conv_image_fst)
qed

lemma sort_cong_mset: "mset xs = mset ys \<Longrightarrow> sort xs = sort ys"
  by (metis properties_for_sort mset_sort sorted_sort)

lemma collect_results_order:
  assumes c1: "collect_results probe c1 [] = Inr d1"
    and own: "\<forall>r repo s. probe r = Inr (Some (repo, s)) \<longrightarrow> repo = r"
    and same: "set c2 = set c1"
  shows "\<exists>d2. collect_results probe c2 [] = Inr d2 \<and> sort d2 = sort d1"
proof -
  from collect_results_map_of [OF c1 own]
  have m1: "map_of d1 = (\<lambda>k. if k \<in> set c1 then status_of probe k else None)"
    and ok: "\<forall>r \<in> set c1. status_of probe r \<noteq> None" by auto
  from ok same have "\<forall>r \<in> set c2. status_of probe r \<noteq> None" by simp
  from collect_results_succeeds [OF this] obtain d2 where c2: "collect_results probe c2 [] = Inr d2"
    by blast
  from collect_results_map_of [OF c2 own] same
  have m2: "map_of d2 = (\<lambda>k. if k \<in> set c1 then status_of probe k else None)" by auto
  have di: "distinct (map fst d1)" "distinct (map fst d2)"
    using collect_results_distinct [OF c1] collect_results_distinct [OF c2] by simp_all
  from m1 m2 have "map_of d1 = map_of d2" by simp
  with di have "set d1 = set d2" by (simp add: map_of_inject_set)
  moreover from di have "distinct d1" "distinct d2" by (auto simp: distinct_map)
  ultimately have "mset d2 = mset d1" by (simp add: set_eq_iff_mset_eq_distinct)
  then have "sort d2 = sort d1" by (rule sort_cong_mset)
  with c2 show ?thesis by blast
qed

lemma update_present_keys: "map_of g k = Some v \<Longrightarrow> map fst (AList.update k w g) = map fst g"
  by (induction g) (auto split: if_splits)

lemma total_repos_update:
  "map_of g k = Some rs \<Longrightarrow> total_repos (AList.update k (rs @ [r]) g) = Suc (total_repos g)"
  by (induction g) (auto simp: total_repos_def split: if_splits)

lemma occurrences_update:
  "map_of g k = Some rs \<Longrightarrow>
     occurrences x (AList.update k (rs @ [r]) g) = occurrences x g + (if r = x then 1 else 0)"
  by (induction g) (auto simp: occurrences_def split: if_splits)

lemma group_repos_keys: "group_repos items g = Inr g' \<Longrightarrow> map fst g' = map fst g"
proof (induction items g rule: group_repos.induct)
  case (1 g)
  then show ?case by simp
next
  case (2 repo status items g)
  then show ?case by (auto split: option.splits simp: update_present_keys)
qed

lemma group_repos_total:
  "group_repos items g = Inr g' \<Longrightarrow> total_repos g' = total_repos g + length items"
proof (induction items g rule: group_repos.induct)
  case (1 g)
  then show ?case by simp
next
  case (2 repo status items g)
  then show ?case by (auto split: option.splits simp: total_repos_update)
qed

lemma group_repos_occurrences:
  "group_repos items g = Inr g' \<Longrightarrow>
     occurrences x g' = occurrences x g + count_list (map fst items) x"
proof (induction items g rule: group_repos.induct)
  case (1 g)
  then show ?case by simp
next
  case (2 repo status items g)
  then show ?case by (auto split: option.splits simp: occurrences_update)
qed

lemma group_repos_succeeds:
  "\<forall>item \<in> set items. snd item \<in> fst ` set g \<Longrightarrow> \<exists>g'. group_repos items g = Inr g'"
proof (induction items g rule: group_repos.induct)
  case (1 g)
  then show ?case by simp
next
  case (2 repo status items g)
  from 2(2) have "status \<in> fst ` set g" by simp
  then obtain rs where rs: "map_of g status = Some rs"
    by (metis domD dom_map_of_conv_image_fst)
  have "fst ` set (AList.update status (rs @ [repo]) g) = fst ` set g"
    using \<open>status \<in> fst ` set g\<close> by (auto simp: keys_update)
  with 2(2) have "\<forall>item \<in> set items. snd item \<in> fst ` set (AList.update status (rs @ [repo]) g)"
    by simp
  from 2(1) [OF rs this] rs show ?case by simp
qed

lemma values_update: "snd ` set (AList.update k v d) \<subseteq> insert v (snd ` set d)"
  by (induction d) auto

lemma values_fold_update:
  "snd ` set (fold (\<lambda>kv d. AList.update (fst kv) (snd kv) d) kvs d) \<subseteq> snd ` set kvs \<union> snd ` set d"
proof (induction kvs arbitrary: d)
  case Nil
  then show ?case by simp
next
  case (Cons kv kvs)
  from Cons [of "AList.update (fst kv) (snd kv) d"] values_update [of "fst kv" "snd kv" d]
  show ?case by auto
qed

lemma status_groups_keys:
  "fst ` set (status_groups dep_prefix)
     = {''Has '' @ dep_prefix, ''No '' @ dep_prefix, ''No package.json'', ''Error''}"
  by (simp add: status_groups_def keys_dict_of)

lemma status_groups_empty: "g \<in> set (status_groups dep_prefix) \<Longrightarrow> snd g = []"
  using values_fold_update [of "[(''Has '' @ dep_prefix, []), (''No '' @ dep_prefix, []),
              (''No package.json'', []), (''Error'', [])]" "[]"]
  by (auto simp: status_groups_def dict_of_def)

lemma status_groups_total: "total_repos (status_groups dep_prefix) = 0"
  by (simp add: total_repos_def status_groups_empty)

lemma status_groups_occurrences: "occurrences x (status_groups dep_prefix) = 0"
  by (simp add: occurrences_def status_groups_empty)

lemma count_list_distinct: "distinct xs \<Longrightarrow> count_list xs x = (if x \<in> set xs then 1 else 0)"
  by (induction xs) auto

text \<open>
  C2: when every future of an organization has completed (\<open>completed\<close> holds the
  repositories \<open>repos\<close> in some order) and every probe has returned its pair, grouping
  the results succeeds, the groups are the four statuses, the number of repository lines
  in all groups is the number of repositories, and every repository is named by exactly
  one line, repositories classified \<open>Error\<close> included; no other name appears.
\<close>

theorem every_repo_in_exactly_one_group:
  assumes comp: "mset completed = mset repos"
    and coll: "collect_results (\<lambda>repo. check_dep_in_repo loads repo dep_prefix
                  (http_get (manifest_url repo branch))) completed [] = Inr org_results"
  shows "\<exists>groups. group_org dep_prefix org_results = Inr groups
           \<and> fst ` set groups
               = {''Has '' @ dep_prefix, ''No '' @ dep_prefix, ''No package.json'', ''Error''}
           \<and> total_repos groups = card (set repos)
           \<and> (\<forall>repo \<in> set repos. occurrences repo groups = 1)
           \<and> (\<forall>repo. repo \<notin> set repos \<longrightarrow> occurrences repo groups = 0)"
proof -
  let ?probe = "\<lambda>repo. check_dep_in_repo loads repo dep_prefix (http_get (manifest_url repo branch))"
  have own: "\<forall>r repo s. ?probe r = Inr (Some (repo, s)) \<longrightarrow> repo = r"
    by (auto dest: check_dep_in_repo_pair)
  from comp have sets: "set completed = set repos" by (rule mset_eq_setD)
  have keys: "fst ` set org_results = set repos"
    using collect_results_keys [OF coll own] sets by simp
  have dist: "distinct (map fst org_results)"
    using collect_results_distinct [OF coll] by simp
  from collect_results_map_of [OF coll own]
  have m: "map_of org_results = (\<lambda>k. if k \<in> set completed then status_of ?probe k else None)"
    by auto
  have valid: "\<forall>item \<in> set (sort org_results). snd item \<in> fst ` set (status_groups dep_prefix)"
  proof
    fix item assume "item \<in> set (sort org_results)"
    then have "(fst item, snd item) \<in> set org_results" by simp
    with dist have "map_of org_results (fst item) = Some (snd item)" by simp
    with m have "status_of ?probe (fst item) = Some (snd item)" by (simp split: if_splits)
    then obtain repo where "?probe (fst item) = Inr (Some (repo, snd item))"
      by (auto simp: status_of_Some)
    from check_dep_in_repo_pair [OF this] show "snd item \<in> fst ` set (status_groups dep_prefix)"
      by (simp add: status_groups_keys)
  qed
  from group_repos_succeeds [OF valid] obtain groups
    where g: "group_repos (sort org_results) (status_groups dep_prefix) = Inr groups" by blast
  have k: "fst ` set groups
             = {''Has '' @ dep_prefix, ''No '' @ dep_prefix, ''No package.json'', ''Error''}"
    using group_repos_keys [OF g] status_groups_keys [of dep_prefix]
    by (metis list.set_map)
  have "length org_results = card (fst ` set org_results)"
    using dist by (metis distinct_card length_map list.set_map)
  then have t: "total_repos groups = card (set repos)"
    using group_repos_total [OF g] keys by (simp add: status_groups_total)
  have "mset (map fst (sort org_results)) = mset (map fst org_results)" by simp
  then have d2: "distinct (map fst (sort org_results))"
    and s2: "set (map fst (sort org_results)) = set repos"
    using dist keys by (metis mset_eq_imp_distinct_iff, metis list.set_map mset_eq_setD)
  have o: "occurrences x groups = (if x \<in> set repos then 1 else 0)" for x
    using group_repos_occurrences [OF g, of x] count_list_distinct [OF d2, of x] s2
    by (simp add: status_groups_occurrences)
  from g k t o show ?thesis by (simp add: group_org_def)
qed

theorem every_repo_in_exactly_one_group_witness:
  "\<exists>groups. group_org ''ag-grid'' [(''acme/b'', ''No package.json''), (''acme/a'', ''Error'')] = Inr groups
      \<and> total_repos groups = 2
      \<and> occurrences ''acme/a'' groups = 1
      \<and> occurrences ''acme/b'' groups = 1"
proof -
  have h1: "mset [''acme/b'', ''acme/a''] = mset [''acme/a'', ''acme/b'']" by simp
  have h2: "collect_results
              (\<lambda>repo. check_dep_in_repo (remote [] JSONDecodeError) repo ''ag-grid''
                 (remote [(''https://raw.githubusercontent.com/acme/b/main/package.json'',
                           Response 404 [])] RequestFailed (manifest_url repo ''main'')))
              [''acme/b'', ''acme/a''] []
            = Inr [(''acme/b'', ''No package.json''), (''acme/a'', ''Error'')]"
    by code_simp
  have h3: "card (set [''acme/a'', ''acme/b'']) = 2" by simp
  from every_repo_in_exactly_one_group [OF h1 h2] show ?thesis unfolding h3 by auto
qed

lemma update_same_report:
  "list_all2 (\<lambda>x y. fst x = fst y \<and> sort (snd x) = sort (snd y)) a b \<Longrightarrow> sort x = sort y \<Longrightarrow>
   list_all2 (\<lambda>x y. fst x = fst y \<and> sort (snd x) = sort (snd y))
     (AList.update k x a) (AList.update k (y :: string pydict) b)"
  by (induction a b rule: list_all2_induct) auto

lemma scan_orgs_order:
  assumes p1: "\<forall>org repos. mset (sched1 org repos) = mset repos"
    and p2: "\<forall>org repos. mset (sched2 org repos) = mset repos"
    and own: "\<forall>r repo s. probe r = Inr (Some (repo, s)) \<longrightarrow> repo = r"
  shows "scan_orgs lister probe sched1 orgs a = Some (Inr a') \<Longrightarrow>
     list_all2 (\<lambda>x y. fst x = fst y \<and> sort (snd x) = sort (snd y)) a b \<Longrightarrow>
     \<exists>b'. scan_orgs lister probe sched2 orgs b = Some (Inr b')
          \<and> list_all2 (\<lambda>x y. fst x = fst y \<and> sort (snd x) = sort (snd y)) a' b'"
proof (induction orgs arbitrary: a b)
  case Nil
  then show ?case by simp
next
  case (Cons org orgs)
  from Cons.prems(1) obtain repos where l: "lister org = Some repos"
    by (auto split: option.splits)
  show ?case
  proof (cases "repos = []")
    case True
    with Cons l show ?thesis by simp
  next
    case False
    with Cons.prems(1) l obtain d1
      where c1: "collect_results probe (sched1 org repos) [] = Inr d1"
        and rest: "scan_orgs lister probe sched1 orgs (AList.update org d1 a) = Some (Inr a')"
      by (auto split: sum.splits)
    have "set (sched2 org repos) = set (sched1 org repos)"
      using p1 p2 by (metis mset_eq_setD)
    from collect_results_order [OF c1 own this] obtain d2
      where c2: "collect_results probe (sched2 org repos) [] = Inr d2" and s: "sort d2 = sort d1"
      by blast
    from update_same_report [OF Cons.prems(2) s [symmetric]]
    have "list_all2 (\<lambda>x y. fst x = fst y \<and> sort (snd x) = sort (snd y))
            (AList.update org d1 a) (AList.update org d2 b)" .
    from Cons.IH [OF rest this] l False c2 show ?thesis by simp
  qed
qed

lemma console_orgs_order:
  "list_all2 (\<lambda>x y. fst x = fst y \<and> sort (snd x) = sort (snd y)) a b \<Longrightarrow>
     console_orgs dep_prefix a = console_orgs dep_prefix b"
  by (induction a b rule: list_all2_induct) (auto simp: group_org_def split: sum.splits)

lemma main_order_independent:
  assumes p1: "\<forall>org repos. mset (sched1 org repos) = mset repos"
    and p2: "\<forall>org repos. mset (sched2 org repos) = mset repos"
    and run: "main loads http_list http_get sched1 txt_file content dep_prefix branch
                = Some (Finished console file)"
  shows "main loads http_list http_get sched2 txt_file content dep_prefix branch
           = Some (Finished console file)"
proof -
  let ?lister = "\<lambda>org. map_option fst (get_org_repos http_list org)"
  let ?probe = "\<lambda>repo. check_dep_in_repo loads repo dep_prefix (http_get (manifest_url repo branch))"
  have own: "\<forall>r repo s. ?probe r = Inr (Some (repo, s)) \<longrightarrow> repo = r"
    by (auto dest: check_dep_in_repo_pair)
  from run obtain lines where c: "content = Some lines" and ne: "read_orgs lines \<noteq> []"
    and sr: "scan_and_report loads http_list http_get sched1 (read_orgs lines) dep_prefix branch
               = Some (Finished console file)"
    by (auto simp: main_def split: option.splits if_splits)
  from sr obtain all1 where s1: "scan_orgs ?lister ?probe sched1 (read_orgs lines) [] = Some (Inr all1)"
    and con: "console_report dep_prefix all1 = Inr console"
    and fil: "file_report dep_prefix all1 = Inr file"
    by (auto simp: scan_and_report_def split: option.splits sum.splits)
  from scan_orgs_order [OF p1 p2 own s1, of "[]"] obtain all2
    where s2: "scan_orgs ?lister ?probe sched2 (read_orgs lines) [] = Some (Inr all2)"
      and rel: "list_all2 (\<lambda>x y. fst x = fst y \<and> sort (snd x) = sort (snd y)) all1 all2"
    by auto
  from console_orgs_order [OF rel]
  have "console_report dep_prefix all2 = console_report dep_prefix all1"
    and "file_report dep_prefix all2 = file_report dep_prefix all1"
    by (simp_all add: console_report_def file_report_def console_orgs_eq_file_orgs [symmetric])
  with con fil s2 have "scan_and_report loads http_list http_get sched2 (read_orgs lines) dep_prefix branch
               = Some (Finished console file)"
    by (simp add: scan_and_report_def)
  with c ne show ?thesis by (simp add: main_def)
qed

lemma update_entries: "set (AList.update k v a) \<subseteq> insert (k, v) (set a)"
  by (induction a) auto

lemma scan_orgs_entries:
  "scan_orgs lister probe sched orgs a = Some (Inr res) \<Longrightarrow>
     map fst res = fold (\<lambda>x seen. if x \<in> set seen then seen else seen @ [x])
                     (filter (\<lambda>org. lister org \<noteq> Some []) orgs) (map fst a)
     \<and> (\<forall>org \<in> set orgs. lister org \<noteq> None)
     \<and> (\<forall>e \<in> set res. e \<in> set a
            \<or> (\<exists>repos. lister (fst e) = Some repos
                  \<and> collect_results probe (sched (fst e) repos) [] = Inr (snd e)))"
proof (induction orgs arbitrary: a)
  case Nil
  then show ?case by simp
next
  case (Cons org orgs)
  from Cons.prems obtain repos where l: "lister org = Some repos"
    by (auto split: option.splits)
  show ?case
  proof (cases "repos = []")
    case True
    with Cons.prems l have "scan_orgs lister probe sched orgs a = Some (Inr res)" by simp
    from Cons.IH [OF this] l True show ?thesis by simp
  next
    case False
    with Cons.prems l obtain d
      where c: "collect_results probe (sched org repos) [] = Inr d"
        and rest: "scan_orgs lister probe sched orgs (AList.update org d a) = Some (Inr res)"
      by (auto split: sum.splits)
    have k: "map fst (AList.update org d a)
               = (if org \<in> set (map fst a) then map fst a else map fst a @ [org])"
      by (rule update_keys)
    have e: "e \<in> set a \<or> (\<exists>repos. lister (fst e) = Some repos
                  \<and> collect_results probe (sched (fst e) repos) [] = Inr (snd e))"
      if "e \<in> set (AList.update org d a)" for e
      using that update_entries [of org d a] l c by auto
    from Cons.IH [OF rest] l False k e show ?thesis by auto
  qed
qed

lemma update_distinct_keys:
  "distinct (map fst g) \<Longrightarrow> map_of g k = Some v \<Longrightarrow>
     AList.update k w g = map (\<lambda>e. if fst e = k then (k, w) else e) g"
proof (induction g)
  case Nil
  then show ?case by simp
next
  case (Cons e g)
  show ?case
  proof (cases "fst e = k")
    case True
    with Cons.prems(1) have "k \<notin> fst ` set g" by simp
    then have "\<forall>x \<in> set g. fst x \<noteq> k" by blast
    then have "map (\<lambda>e. if fst e = k then (k, w) else e) g = g" by (simp add: map_idI)
    with True show ?thesis by (cases e) simp
  next
    case False
    with Cons show ?thesis by (cases e) auto
  qed
qed

lemma group_repos_exact:
  "group_repos items g = Inr g' \<Longrightarrow> distinct (map fst g) \<Longrightarrow>
     g' = map (\<lambda>e. (fst e, snd e @ map fst (filter (\<lambda>i. snd i = fst e) items))) g"
proof (induction items g rule: group_repos.induct)
  case (1 g)
  then show ?case by (simp add: map_idI)
next
  case (2 repo status items g)
  from 2(2) obtain repos where m: "map_of g status = Some repos"
    and rest: "group_repos items (AList.update status (repos @ [repo]) g) = Inr g'"
    by (auto split: option.splits)
  have u: "AList.update status (repos @ [repo]) g
             = map (\<lambda>e. if fst e = status then (status, repos @ [repo]) else e) g"
    using update_distinct_keys [OF 2(3) m] .
  have d: "distinct (map fst (AList.update status (repos @ [repo]) g))"
    using 2(3) by (simp add: distinct_update)
  have v: "snd e = repos" if "e \<in> set g" "fst e = status" for e
  proof -
    from that(1) have "(fst e, snd e) \<in> set g" by simp
    with 2(3) have "map_of g (fst e) = Some (snd e)" by simp
    with that(2) m show ?thesis by simp
  qed
  from 2(1) [OF m rest d] show ?case
    unfolding u by (auto simp: v)
qed

lemma sorted_map_fst: "sorted (xs :: (string \<times> string) list) \<Longrightarrow> sorted (map fst xs)"
  by (induction xs) (auto simp: less_eq_prod_def)

lemma bucket_sorted:
  "map fst (filter P (sort (d :: (string \<times> string) list))) = sort (map fst (filter P d))"
proof -
  have "sorted (map fst (sort d))" by (rule sorted_map_fst) simp
  then have "sorted (map fst (filter P (sort d)))" by (rule sorted_filter)
  moreover have "mset (map fst (filter P (sort d))) = mset (map fst (filter P d))" by simp
  ultimately show ?thesis by (metis properties_for_sort)
qed

lemma bucket_mset:
  assumes coll: "collect_results probe c [] = Inr d"
    and own: "\<forall>r repo s. probe r = Inr (Some (repo, s)) \<longrightarrow> repo = r"
    and same: "set c = set repos"
  shows "mset (map fst (filter (\<lambda>i. snd i = k) d))
           = mset (remdups (filter (\<lambda>r. status_of probe r = Some k) repos))"
proof -
  have dist: "distinct (map fst d)" using collect_results_distinct [OF coll] by simp
  from collect_results_map_of [OF coll own]
  have m: "map_of d = (\<lambda>r. if r \<in> set c then status_of probe r else None)" by auto
  have mem: "(r, s) \<in> set d \<longleftrightarrow> r \<in> set c \<and> status_of probe r = Some s" for r s
  proof -
    have "(r, s) \<in> set d \<longleftrightarrow> map_of d r = Some s" using dist by simp
    also have "\<dots> \<longleftrightarrow> r \<in> set c \<and> status_of probe r = Some s" unfolding m by simp
    finally show ?thesis .
  qed
  have s1: "set (map fst (filter (\<lambda>i. snd i = k) d)) = {r \<in> set c. status_of probe r = Some k}"
  proof (intro set_eqI iffI)
    fix r assume "r \<in> set (map fst (filter (\<lambda>i. snd i = k) d))"
    then obtain i where i: "i \<in> set d" "snd i = k" "fst i = r" by auto
    from i(1) have "(fst i, snd i) \<in> set d" by simp
    with i(2,3) have "(r, k) \<in> set d" by simp
    with mem show "r \<in> {r \<in> set c. status_of probe r = Some k}" by blast
  next
    fix r assume "r \<in> {r \<in> set c. status_of probe r = Some k}"
    with mem have "(r, k) \<in> set d" by blast
    then have "(r, k) \<in> set (filter (\<lambda>i. snd i = k) d)" by simp
    then have "fst (r, k) \<in> fst ` set (filter (\<lambda>i. snd i = k) d)" by (rule imageI)
    then show "r \<in> set (map fst (filter (\<lambda>i. snd i = k) d))" by simp
  qed
  have s2: "set (remdups (filter (\<lambda>r. status_of probe r = Some k) repos))
          = {r \<in> set c. status_of probe r = Some k}"
    unfolding same by simp
  have d1: "distinct (map fst (filter (\<lambda>i. snd i = k) d))"
    using dist by (rule distinct_map_filter)
  have d2: "distinct (remdups (filter (\<lambda>r. status_of probe r = Some k) repos))"
    by (rule distinct_remdups)
  from s1 s2 have "set (map fst (filter (\<lambda>i. snd i = k) d))
      = set (remdups (filter (\<lambda>r. status_of probe r = Some k) repos))" by (rule trans_sym)
  with set_eq_iff_mset_eq_distinct [OF d1 d2] show ?thesis by (rule iffD1)
qed

lemma fold_update_key_order:
  "map fst (fold (\<lambda>kv d. AList.update (fst kv) (snd kv) d) kvs d)
     = fold (\<lambda>x seen. if x \<in> set seen then seen else seen @ [x]) (map fst kvs) (map fst d)"
proof (induction kvs arbitrary: d)
  case Nil
  then show ?case by simp
next
  case (Cons kv kvs)
  show ?case by (simp add: Cons update_keys)
qed

lemma fold_update_distinct:
  "distinct (map fst d) \<Longrightarrow> distinct (map fst (fold (\<lambda>kv d. AList.update (fst kv) (snd kv) d) kvs d))"
  by (induction kvs arbitrary: d) (simp_all add: distinct_update)

lemma status_groups_key_order:
  "map fst (status_groups dep_prefix)
     = insertion_order [''Has '' @ dep_prefix, ''No '' @ dep_prefix, ''No package.json'', ''Error'']"
  unfolding status_groups_def dict_of_def insertion_order_def fold_update_key_order by simp

lemma status_groups_distinct: "distinct (map fst (status_groups dep_prefix))"
  unfolding status_groups_def dict_of_def by (rule fold_update_distinct) simp

lemma group_org_spec:
  assumes coll: "collect_results probe c [] = Inr d"
    and own: "\<forall>r repo s. probe r = Inr (Some (repo, s)) \<longrightarrow> repo = r"
    and same: "set c = set repos"
    and valid: "\<forall>r s. status_of probe r = Some s \<longrightarrow> s \<in> fst ` set (status_groups dep_prefix)"
  shows "group_org dep_prefix d = Inr (spec_groups dep_prefix (status_of probe) repos)"
proof -
  have dist: "distinct (map fst d)" using collect_results_distinct [OF coll] by simp
  from collect_results_map_of [OF coll own]
  have m: "map_of d = (\<lambda>r. if r \<in> set c then status_of probe r else None)" by auto
  have "\<forall>item \<in> set (sort d). snd item \<in> fst ` set (status_groups dep_prefix)"
  proof
    fix item assume "item \<in> set (sort d)"
    then have "(fst item, snd item) \<in> set d" by simp
    with dist have "map_of d (fst item) = Some (snd item)" by simp
    with m have "status_of probe (fst item) = Some (snd item)" by (simp split: if_splits)
    with valid show "snd item \<in> fst ` set (status_groups dep_prefix)" by blast
  qed
  from group_repos_succeeds [OF this] obtain groups
    where g: "group_repos (sort d) (status_groups dep_prefix) = Inr groups" by blast
  from group_repos_exact [OF g status_groups_distinct]
  have "groups = map (\<lambda>e. (fst e, snd e @ map fst (filter (\<lambda>i. snd i = fst e) (sort d))))
                   (status_groups dep_prefix)" .
  also have "\<dots> = map (\<lambda>e. (fst e, sort (remdups (filter (\<lambda>r. status_of probe r = Some (fst e)) repos))))
                   (status_groups dep_prefix)"
  proof (rule map_cong [OF refl])
    fix e assume "e \<in> set (status_groups dep_prefix)"
    then have "snd e = []" by (rule status_groups_empty)
    moreover have "map fst (filter (\<lambda>i. snd i = fst e) (sort d))
                     = sort (remdups (filter (\<lambda>r. status_of probe r = Some (fst e)) repos))"
      unfolding bucket_sorted
      by (rule sort_cong_mset) (rule bucket_mset [OF coll own same])
    ultimately show "(fst e, snd e @ map fst (filter (\<lambda>i. snd i = fst e) (sort d)))
          = (fst e, sort (remdups (filter (\<lambda>r. status_of probe r = Some (fst e)) repos)))"
      by simp
  qed
  also have "\<dots> = map (\<lambda>category. (category, sort (remdups (filter (\<lambda>r. status_of probe r = Some category) repos))))
                      (map fst (status_groups dep_prefix))"
    by (simp add: comp_def)
  finally show ?thesis
    using g by (simp add: group_org_def spec_groups_def status_groups_key_order)
qed

lemma file_groups_sorted:
  "\<forall>g \<in> set groups. sorted (snd g) \<Longrightarrow>
   file_groups groups
     = concat (map (\<lambda>g. if snd g = [] then []
                         else ''  '' @ fst g @ '':'' @ nl
                              @ concat (map (\<lambda>repo. ''    '' @ repo @ nl) (snd g)))
                   groups)"
  by (induction groups rule: file_groups.induct)
     (simp_all add: write_text_def sorted_sort_id)

text \<open>Within each category of the specification the names are sorted.\<close>

lemma spec_groups_sorted: "\<forall>g \<in> set (spec_groups dep_prefix status repos). sorted (snd g)"
  by (auto simp: spec_groups_def)

lemma file_orgs_spec:
  "\<forall>e \<in> set res. group_org dep_prefix (snd e) = Inr (spec_groups dep_prefix status (listing (fst e))) \<Longrightarrow>
   file_orgs dep_prefix res
     = Inr (concat (map (\<lambda>org. spec_section org (spec_groups dep_prefix status (listing org)))
                        (map fst res)))"
proof (induction dep_prefix res rule: file_orgs.induct)
  case (1 dep_prefix)
  then show ?case by simp
next
  case (2 dep_prefix org results rest)
  from 2(2) have g: "group_org dep_prefix results = Inr (spec_groups dep_prefix status (listing org))"
    by simp
  from 2(2) have "\<forall>e \<in> set rest. group_org dep_prefix (snd e)
                     = Inr (spec_groups dep_prefix status (listing (fst e)))" by simp
  from 2(1) [OF g this] g show ?case
    by (simp add: spec_section_def write_text_def file_groups_sorted [OF spec_groups_sorted])
qed

lemma fold_insertion_distinct:
  "distinct xs \<Longrightarrow> set xs \<inter> set seen = {} \<Longrightarrow>
     fold (\<lambda>x seen. if x \<in> set seen then seen else seen @ [x]) xs seen = seen @ xs"
  by (induction xs arbitrary: seen) auto

text \<open>The order of first appearance: a list without repetitions is kept as it is, and
  in general no element is lost or repeated.\<close>

lemma insertion_order_distinct: "distinct xs \<Longrightarrow> insertion_order xs = xs"
  by (simp add: insertion_order_def fold_insertion_distinct)

lemma insertion_order_set: "set (insertion_order xs) = set xs \<and> distinct (insertion_order xs)"
proof -
  have "set (fold (\<lambda>x seen. if x \<in> set seen then seen else seen @ [x]) xs seen) = set xs \<union> set seen
        \<and> (distinct seen \<longrightarrow> distinct (fold (\<lambda>x seen. if x \<in> set seen then seen else seen @ [x]) xs seen))"
    for seen :: "string list"
    by (induction xs arbitrary: seen) auto
  from this [of "[]"] show ?thesis by (simp add: insertion_order_def)
qed

text \<open>The order on names is the lexicographic one by code point: a capital letter comes
  before a small one, and a name comes before its extensions.\<close>

lemma string_order_examples:
  "''acme/a'' < ''acme/b'' \<and> ''acme/b'' < ''acme/b1'' \<and> ''Zeta'' < ''acme''
   \<and> sort [''zeta/y'', ''acme/b'', ''acme/a'', ''Zeta''] = [''Zeta'', ''acme/a'', ''acme/b'', ''zeta/y'']"
  by code_simp

text \<open>
  C8: a run that ends with a report ends with the same report, byte for byte on the
  console and in \<open>output.txt\<close>, under every other order in which the futures may
  complete, the input and the answers of the remote ends being the same. The content of
  \<open>output.txt\<close> is the report of the specification: the organizations with
  repositories in the order in which the input list first names them, under each the
  categories that are not empty, and under each category its repositories in
  lexicographic order. The console shows the same text after an empty line.
\<close>

theorem report_sorted_and_independent_of_completion_order:
  assumes p1: "\<forall>org repos. mset (sched1 org repos) = mset repos"
    and p2: "\<forall>org repos. mset (sched2 org repos) = mset repos"
    and run: "main loads http_list http_get sched1 txt_file (Some lines) dep_prefix branch
                = Some (Finished console file)"
  shows "main loads http_list http_get sched2 txt_file (Some lines) dep_prefix branch
           = Some (Finished console file)
         \<and> file = spec_report dep_prefix
                    (status_of (\<lambda>repo. check_dep_in_repo loads repo dep_prefix
                                         (http_get (manifest_url repo branch))))
                    (\<lambda>org. case get_org_repos http_list org of
                             Some (repos, fetched) \<Rightarrow> repos | None \<Rightarrow> [])
                    (read_orgs lines)
         \<and> console = nl @ file"
proof -
  let ?lister = "\<lambda>org. map_option fst (get_org_repos http_list org)"
  let ?listing = "\<lambda>org. case get_org_repos http_list org of
                             Some (repos, fetched) \<Rightarrow> repos | None \<Rightarrow> []"
  let ?probe = "\<lambda>repo. check_dep_in_repo loads repo dep_prefix (http_get (manifest_url repo branch))"
  let ?orgs = "read_orgs lines"
  have own: "\<forall>r repo s. ?probe r = Inr (Some (repo, s)) \<longrightarrow> repo = r"
    by (auto dest: check_dep_in_repo_pair)
  have valid: "\<forall>r s. status_of ?probe r = Some s \<longrightarrow> s \<in> fst ` set (status_groups dep_prefix)"
    unfolding status_groups_keys status_of_Some by (auto dest: check_dep_in_repo_pair)
  have ll: "?listing org = repos" if "?lister org = Some repos" for org repos
    using that by (auto split: option.splits)
  from run have sr: "scan_and_report loads http_list http_get sched1 ?orgs dep_prefix branch
               = Some (Finished console file)"
    by (auto simp: main_def split: if_splits)
  from sr obtain all1 where s1: "scan_orgs ?lister ?probe sched1 ?orgs [] = Some (Inr all1)"
    and con: "console_report dep_prefix all1 = Inr console"
    and fil: "file_report dep_prefix all1 = Inr file"
    by (auto simp: scan_and_report_def split: option.splits sum.splits)
  from scan_orgs_entries [OF s1]
  have keys: "map fst all1 = fold (\<lambda>x seen. if x \<in> set seen then seen else seen @ [x])
                     (filter (\<lambda>org. ?lister org \<noteq> Some []) ?orgs) []"
    and some: "\<forall>org \<in> set ?orgs. ?lister org \<noteq> None"
    and ent: "\<forall>e \<in> set all1. \<exists>repos. ?lister (fst e) = Some repos
                  \<and> collect_results ?probe (sched1 (fst e) repos) [] = Inr (snd e)"
    by simp_all
  have "filter (\<lambda>org. ?lister org \<noteq> Some []) ?orgs = filter (\<lambda>org. ?listing org \<noteq> []) ?orgs"
  proof (rule filter_cong [OF refl])
    fix org assume "org \<in> set ?orgs"
    with some obtain repos where l: "?lister org = Some repos" by blast
    from ll [OF l] have "?listing org = repos" .
    then show "(?lister org \<noteq> Some []) = (?listing org \<noteq> [])"
      unfolding l by simp
  qed
  with keys have keys': "map fst all1 = insertion_order (filter (\<lambda>org. ?listing org \<noteq> []) ?orgs)"
    by (simp add: insertion_order_def)
  have "\<forall>e \<in> set all1. group_org dep_prefix (snd e)
            = Inr (spec_groups dep_prefix (status_of ?probe) (?listing (fst e)))"
  proof
    fix e assume "e \<in> set all1"
    with ent obtain repos where l: "?lister (fst e) = Some repos"
      and coll: "collect_results ?probe (sched1 (fst e) repos) [] = Inr (snd e)" by blast
    from p1 have same: "set (sched1 (fst e) repos) = set repos" by (metis mset_eq_setD)
    from group_org_spec [OF coll own same valid] ll [OF l]
    show "group_org dep_prefix (snd e)
            = Inr (spec_groups dep_prefix (status_of ?probe) (?listing (fst e)))" by simp
  qed
  from file_orgs_spec [OF this]
  have fo: "file_orgs dep_prefix all1
     = Inr (concat (map (\<lambda>org. spec_section org (spec_groups dep_prefix (status_of ?probe) (?listing org)))
                        (map fst all1)))" .
  from fil have f: "file = spec_report dep_prefix (status_of ?probe) ?listing ?orgs"
    unfolding file_report_def fo keys' by (simp add: spec_report_def write_text_def)
  from con fil have c: "console = nl @ file"
    by (auto simp: console_report_def file_report_def console_orgs_eq_file_orgs
          print_text_def write_text_def split: sum.splits)
  from main_order_independent [OF p1 p2 run] f c show ?thesis by simp
qed

lemma two_orgs_run_in_order:
  "main (remote [] JSONDecodeError)
        (remote [(''https://api.github.com/orgs/zeta/repos?per_page=100&page=1'',
                  PageData [Some ''zeta/y'', Some ''zeta/x'']),
                 (''https://api.github.com/orgs/acme/repos?per_page=100&page=1'',
                  PageData [Some ''acme/b'', Some ''acme/c'', Some ''acme/a''])]
           (PageData []))
        (remote [(''https://raw.githubusercontent.com/acme/c/main/package.json'',
                  Response 404 [])] RequestFailed)
        in_order ''orgs.txt'' (Some [''zeta'' @ nl, ''acme'' @ nl]) ''ag-grid'' ''main''
   = Some (Finished
       (nl @ ''Final Results for '' @ apos @ ''ag-grid'' @ apos
        @ '' (grouped by organization and status):'' @ nl
        @ nl @ ''Organization: zeta'' @ nl
        @ ''  Error:'' @ nl @ ''    zeta/x'' @ nl @ ''    zeta/y'' @ nl
        @ nl @ ''Organization: acme'' @ nl
        @ ''  No package.json:'' @ nl @ ''    acme/c'' @ nl
        @ ''  Error:'' @ nl @ ''    acme/a'' @ nl @ ''    acme/b'' @ nl)
       (''Final Results for '' @ apos @ ''ag-grid'' @ apos
        @ '' (grouped by organization and status):'' @ nl
        @ nl @ ''Organization: zeta'' @ nl
        @ ''  Error:'' @ nl @ ''    zeta/x'' @ nl @ ''    zeta/y'' @ nl
        @ nl @ ''Organization: acme'' @ nl
        @ ''  No package.json:'' @ nl @ ''    acme/c'' @ nl
        @ ''  Error:'' @ nl @ ''    acme/a'' @ nl @ ''    acme/b'' @ nl))"
  by code_simp

text \<open>Two organizations, \<open>zeta\<close> before \<open>acme\<close> in the list, whose repositories are
  listed and completed out of order.\<close>

theorem report_sorted_and_independent_of_completion_order_witness:
  "main (remote [] JSONDecodeError)
        (remote [(''https://api.github.com/orgs/zeta/repos?per_page=100&page=1'',
                  PageData [Some ''zeta/y'', Some ''zeta/x'']),
                 (''https://api.github.com/orgs/acme/repos?per_page=100&page=1'',
                  PageData [Some ''acme/b'', Some ''acme/c'', Some ''acme/a''])]
           (PageData []))
        (remote [(''https://raw.githubusercontent.com/acme/c/main/package.json'',
                  Response 404 [])] RequestFailed)
        last_first ''orgs.txt'' (Some [''zeta'' @ nl, ''acme'' @ nl]) ''ag-grid'' ''main''
   = Some (Finished
       (nl @ ''Final Results for '' @ apos @ ''ag-grid'' @ apos
        @ '' (grouped by organization and status):'' @ nl
        @ nl @ ''Organization: zeta'' @ nl
        @ ''  Error:'' @ nl @ ''    zeta/x'' @ nl @ ''    zeta/y'' @ nl
        @ nl @ ''Organization: acme'' @ nl
        @ ''  No package.json:'' @ nl @ ''    acme/c'' @ nl
        @ ''  Error:'' @ nl @ ''    acme/a'' @ nl @ ''    acme/b'' @ nl)
       (''Final Results for '' @ apos @ ''ag-grid'' @ apos
        @ '' (grouped by organization and status):'' @ nl
        @ nl @ ''Organization: zeta'' @ nl
        @ ''  Error:'' @ nl @ ''    zeta/x'' @ nl @ ''    zeta/y'' @ nl
        @ nl @ ''Organization: acme'' @ nl
        @ ''  No package.json:'' @ nl @ ''    acme/c'' @ nl
        @ ''  Error:'' @ nl @ ''    acme/a'' @ nl @ ''    acme/b'' @ nl))
   \<and> spec_report ''ag-grid''
        (status_of (\<lambda>repo. check_dep_in_repo (remote [] JSONDecodeError) repo ''ag-grid''
           (remote [(''https://raw.githubusercontent.com/acme/c/main/package.json'',
                     Response 404 [])] RequestFailed (manifest_url repo ''main''))))
        (\<lambda>org. case get_org_repos
                      (remote [(''https://api.github.com/orgs/zeta/repos?per_page=100&page=1'',
                                PageData [Some ''zeta/y'', Some ''zeta/x'']),
                               (''https://api.github.com/orgs/acme/repos?per_page=100&page=1'',
                                PageData [Some ''acme/b'', Some ''acme/c'', Some ''acme/a''])]
                         (PageData [])) org of
                 Some (repos, fetched) \<Rightarrow> repos | None \<Rightarrow> [])
        (read_orgs [''zeta'' @ nl, ''acme'' @ nl])
     = ''Final Results for '' @ apos @ ''ag-grid'' @ apos
        @ '' (grouped by organization and status):'' @ nl
        @ nl @ ''Organization: zeta'' @ nl
        @ ''  Error:'' @ nl @ ''    zeta/x'' @ nl @ ''    zeta/y'' @ nl
        @ nl @ ''Organization: acme'' @ nl
        @ ''  No package.json:'' @ nl @ ''    acme/c'' @ nl
        @ ''  Error:'' @ nl @ ''    acme/a'' @ nl @ ''    acme/b'' @ nl"
proof -
  have p1: "\<forall>org repos. mset (in_order org repos) = mset repos" by (simp add: in_order_def)
  have p2: "\<forall>org repos. mset (last_first org repos) = mset repos" by (simp add: last_first_def)
  from report_sorted_and_independent_of_completion_order [OF p1 p2 two_orgs_run_in_order] show ?thesis by (simp only: simp_thms)
qed

text \<open>
  C9 (no failure of a probe ends the run). The code does not do this: with one
  organization and one repository whose \<open>package.json\<close> is answered with status 200 and
  the body \<open>[]\<close>, the \<open>AttributeError\<close> of the probe is raised again by
  \<open>future.result()\<close> and ends \<open>main\<close>; no report is printed and \<open>output.txt\<close> is not
  written.
\<close>

theorem probe_exception_crashes_run:
  "main (remote [(''[]'', Parsed (JArray []))] JSONDecodeError)
        (remote [(''https://api.github.com/orgs/acme/repos?per_page=100&page=1'',
                  PageData [Some ''acme/a''])] (PageData []))
        (remote [(''https://raw.githubusercontent.com/acme/a/main/package.json'',
                  Response 200 ''[]'')] RequestFailed)
        in_order ''orgs.txt'' (Some [''acme'' @ nl]) ''ag-grid'' ''main''
   = Some (Crashed AttributeError)"
  by code_simp

text \<open>The two fatal exits of \<open>main\<close> do not depend on the remote ends.\<close>

lemma main_file_not_found:
  "main loads http_list http_get sched txt_file None dep_prefix branch
     = Some (Exit1 (''File not found: '' @ txt_file))"
  by (simp add: main_def)

lemma main_no_organizations:
  "read_orgs lines = [] \<Longrightarrow>
   main loads http_list http_get sched txt_file (Some lines) dep_prefix branch
     = Some (Exit1 ''No organizations found in the file.'')"
  by (simp add: main_def)

lemma scan_orgs_skip:
  "lister org = Some [] \<Longrightarrow>
     scan_orgs lister probe sched orgs a = scan_orgs lister probe sched (removeAll org orgs) a"
  by (induction orgs arbitrary: a) (auto split: option.splits sum.splits)

lemma scan_orgs_keys:
  "scan_orgs lister probe sched orgs a = Some (Inr res) \<Longrightarrow> k \<in> fst ` set res \<Longrightarrow>
     k \<in> fst ` set a \<or> (k \<in> set orgs \<and> lister k \<noteq> Some [])"
proof (induction orgs arbitrary: a)
  case Nil
  then show ?case by simp
next
  case (Cons org orgs)
  from Cons.prems(1) obtain repos where l: "lister org = Some repos"
    by (auto split: option.splits)
  show ?case
  proof (cases "repos = []")
    case True
    with Cons l show ?thesis by auto
  next
    case False
    with Cons.prems(1) l obtain d
      where rest: "scan_orgs lister probe sched orgs (AList.update org d a) = Some (Inr res)"
      by (auto split: sum.splits)
    from Cons.IH [OF rest Cons.prems(2)] l False show ?thesis
      by (auto simp: keys_update)
  qed
qed

text \<open>The listing is empty both when the first page is empty and when its fetch fails.\<close>

lemma first_page_empty_or_failed:
  "http (list_url org 1) = PageFailed \<or> http (list_url org 1) = PageData [] \<Longrightarrow>
     get_org_repos http org = Some ([], [list_url org 1])"
  unfolding get_org_repos_def by (subst get_org_repos_loop.simps) auto

text \<open>
  C10: an organization whose listing comes back empty leaves no trace in the report. The
  outcome of the run, with the console report and \<open>output.txt\<close>, is the one of the same
  run without this organization in the list, and the organization is no key of
  \<open>all_results\<close>, from which both renderings are made.
\<close>

theorem empty_listing_omitted:
  assumes "map_option fst (get_org_repos http_list org) = Some []"
  shows "scan_and_report loads http_list http_get sched orgs dep_prefix branch
           = scan_and_report loads http_list http_get sched (removeAll org orgs) dep_prefix branch
         \<and> (\<forall>res. scan_orgs (\<lambda>org. map_option fst (get_org_repos http_list org))
                    (\<lambda>repo. check_dep_in_repo loads repo dep_prefix
                               (http_get (manifest_url repo branch)))
                    sched orgs [] = Some (Inr res)
                \<longrightarrow> org \<notin> fst ` set res)"
proof -
  let ?lister = "\<lambda>org. map_option fst (get_org_repos http_list org)"
  from assms have l: "?lister org = Some []" .
  from scan_orgs_skip [of ?lister, OF l]
  have "scan_and_report loads http_list http_get sched orgs dep_prefix branch
           = scan_and_report loads http_list http_get sched (removeAll org orgs) dep_prefix branch"
    by (simp add: scan_and_report_def)
  moreover have "org \<notin> fst ` set res"
    if "scan_orgs ?lister (\<lambda>repo. check_dep_in_repo loads repo dep_prefix
                               (http_get (manifest_url repo branch))) sched orgs [] = Some (Inr res)" for res
    using scan_orgs_keys [of ?lister _ sched orgs "[]" res org, OF that] l by auto
  ultimately show ?thesis by blast
qed

theorem empty_listing_omitted_witness:
  "scan_and_report (remote [] JSONDecodeError)
        (remote [(''https://api.github.com/orgs/acme/repos?per_page=100&page=1'', PageData [Some ''acme/b'', Some ''acme/a''])] PageFailed)
        (remote [(''https://raw.githubusercontent.com/acme/b/main/package.json'', Response 404 [])] RequestFailed)
        in_order [''ghost'', ''acme''] ''ag-grid'' ''main''
   = Some (Finished
       (nl @ ''Final Results for '' @ apos @ ''ag-grid'' @ apos @ '' (grouped by organization and status):'' @ nl
        @ nl @ ''Organization: acme'' @ nl
        @ ''  No package.json:'' @ nl @ ''    acme/b'' @ nl
        @ ''  Error:'' @ nl @ ''    acme/a'' @ nl)
       (''Final Results for '' @ apos @ ''ag-grid'' @ apos @ '' (grouped by organization and status):'' @ nl
        @ nl @ ''Organization: acme'' @ nl
        @ ''  No package.json:'' @ nl @ ''    acme/b'' @ nl
        @ ''  Error:'' @ nl @ ''    acme/a'' @ nl))"
proof -
  let ?http_list = "remote [(''https://api.github.com/orgs/acme/repos?per_page=100&page=1'', PageData [Some ''acme/b'', Some ''acme/a''])] PageFailed"
  let ?http_get = "remote [(''https://raw.githubusercontent.com/acme/b/main/package.json'', Response 404 [])] RequestFailed"
  have h: "map_option fst (get_org_repos ?http_list ''ghost'') = Some []" by code_simp
  have r: "removeAll ''ghost'' [''ghost'', ''acme''] = [''acme'']" by simp
  have ev: "scan_and_report (remote [] JSONDecodeError) ?http_list ?http_get in_order [''acme''] ''ag-grid'' ''main''
   = Some (Finished
       (nl @ ''Final Results for '' @ apos @ ''ag-grid'' @ apos @ '' (grouped by organization and status):'' @ nl
        @ nl @ ''Organization: acme'' @ nl
        @ ''  No package.json:'' @ nl @ ''    acme/b'' @ nl
        @ ''  Error:'' @ nl @ ''    acme/a'' @ nl)
       (''Final Results for '' @ apos @ ''ag-grid'' @ apos @ '' (grouped by organization and status):'' @ nl
        @ nl @ ''Organization: acme'' @ nl
        @ ''  No package.json:'' @ nl @ ''    acme/b'' @ nl
        @ ''  Error:'' @ nl @ ''    acme/a'' @ nl))"
    by code_simp
  from empty_listing_omitted [OF h, of "remote [] JSONDecodeError" ?http_get in_order "[''ghost'', ''acme'']" "''ag-grid''" "''main''", THEN conjunct1]
  show ?thesis unfolding r ev .
qed

end
